theory Spec2Isabelle
  imports Complex_Main "HOL-Library.Sublist" "HOL-Library.AList" "HOL-Library.Multiset"
    "HOL-Library.Char_ord" "HOL-Library.List_Lexorder"
begin

section \<open>Strings and the string built-ins the pipeline uses\<close>

text \<open>
  A string is a list of characters. The built-ins below are the ones the transformation
  module calls: \<^verbatim>\<open>split\<close>, \<^verbatim>\<open>pop\<close>, the \<^verbatim>\<open>||\<close> fallback on strings,
  \<^verbatim>\<open>includes\<close>, \<^verbatim>\<open>toLowerCase\<close> (on the ASCII letters) and the three anchored
  \<^verbatim>\<open>replace\<close> calls.
\<close>

definition slash :: char where
  "slash = CHR ''/''"

fun push_front :: "char \<Rightarrow> string list \<Rightarrow> string list" where
  "push_front c [] = [[c]]"
| "push_front c (x # xs) = (c # x) # xs"

text \<open>
  \<^verbatim>\<open>s.split(sep)\<close> for a non-empty separator: scanning from the left, every occurrence
  of the separator closes a segment and the scan goes on behind it
  (\<open>drop (length sep - 1) cs\<close> is what is left of \<open>c # cs\<close> behind the separator).
\<close>

fun split_at :: "string \<Rightarrow> string \<Rightarrow> string list" where
  "split_at sep [] = [[]]"
| "split_at sep (c # cs) =
     (if prefix sep (c # cs) \<and> sep \<noteq> [] then [] # split_at sep (drop (length sep - 1) cs)
      else push_front c (split_at sep cs))"

definition js_split :: "string \<Rightarrow> string \<Rightarrow> string list" where
  "js_split sep s = (if sep = [] then map (\<lambda>c. [c]) s else split_at sep s)"

text \<open>\<^verbatim>\<open>xs.pop()\<close> read for its value: the last element, \<^verbatim>\<open>undefined\<close> on an empty array.\<close>

definition js_pop :: "'a list \<Rightarrow> 'a option" where
  "js_pop xs = (if xs = [] then None else Some (last xs))"

text \<open>\<^verbatim>\<open>a || b\<close> where \<open>a\<close> is a string or \<^verbatim>\<open>undefined\<close>: the empty string is falsy.\<close>

definition or_else :: "string option \<Rightarrow> string \<Rightarrow> string" where
  "or_else a b = (case a of None \<Rightarrow> b | Some s \<Rightarrow> if s = [] then b else s)"

fun js_includes :: "string \<Rightarrow> string \<Rightarrow> bool" where
  "js_includes [] sub = (sub = [])"
| "js_includes (c # cs) sub = (prefix sub (c # cs) \<or> js_includes cs sub)"

definition lower_char :: "char \<Rightarrow> char" where
  "lower_char c =
     (case map_of (zip ''ABCDEFGHIJKLMNOPQRSTUVWXYZ'' ''abcdefghijklmnopqrstuvwxyz'') c of
        Some l \<Rightarrow> l
      | None \<Rightarrow> c)"

definition toLowerCase :: "string \<Rightarrow> string" where
  "toLowerCase s = map lower_char s"

text \<open>
  \<^verbatim>\<open>s.replace(/(a1|a2|...)$/, '')\<close>: the leftmost position from which the rest of the
  string is one of the alternatives is cut off; without such a position the string is
  returned as it is.
\<close>

fun replace_at_end :: "string list \<Rightarrow> string \<Rightarrow> string" where
  "replace_at_end alts [] = []"
| "replace_at_end alts (c # cs) =
     (if c # cs \<in> set alts then [] else c # replace_at_end alts cs)"

text \<open>\<^verbatim>\<open>s.replace(/\/+$/, '')\<close>: the leftmost position from which only slashes follow.\<close>

fun strip_trailing_slashes :: "string \<Rightarrow> string" where
  "strip_trailing_slashes [] = []"
| "strip_trailing_slashes (c # cs) =
     (if list_all (\<lambda>x. x = slash) (c # cs) then [] else c # strip_trailing_slashes cs)"



section \<open>Key normalizer and category extractor\<close>

definition normalizeDatasetKey :: "string \<Rightarrow> string" where
  "normalizeDatasetKey key =
     (let name = strip_trailing_slashes key;
          name = or_else (js_pop (js_split ''/'' name)) name;
          name = or_else (js_pop (js_split ''__'' name)) name
      in name)"

definition test_ext_alts :: "string list" where
  "test_ext_alts = [''_test.json'', ''_test.jsonl'', ''_test.csv'', ''_test.parquet'']"

definition ext_alts :: "string list" where
  "ext_alts = [''.json'', ''.jsonl'', ''.csv'', ''.parquet'']"

definition extractCategory :: "string \<Rightarrow> string" where
  "extractCategory filename =
     (let name = or_else (js_pop (js_split ''/'' filename)) filename
      in replace_at_end ext_alts (replace_at_end test_ext_alts name))"

section \<open>Subject classifier\<close>

datatype CategoryKey =
    computerScience | mathematics | medicineHealth | science | lawGovernment
  | humanitiesPhilosophy | businessEconomics | socialSciences | education
  | engineeringTechnical | vocationalArts | languagesLiterature | miscellaneous | other

definition categorizeTest :: "string \<Rightarrow> CategoryKey" where
  "categorizeTest filename =
     (let name = toLowerCase filename in
      if js_includes name ''computer'' \<or> js_includes name ''machine_learning''
         \<or> js_includes name ''security''
      then computerScience
      else if js_includes name ''math'' \<or> js_includes name ''algebra''
         \<or> js_includes name ''calculus'' \<or> js_includes name ''geometry''
         \<or> js_includes name ''statistics'' \<or> js_includes name ''trigonometry''
      then mathematics
      else if js_includes name ''medicine'' \<or> js_includes name ''nutrition''
         \<or> js_includes name ''anatomy'' \<or> js_includes name ''clinical''
         \<or> js_includes name ''virology'' \<or> js_includes name ''genetics''
         \<or> js_includes name ''pharmacology'' \<or> js_includes name ''veterinary''
         \<or> js_includes name ''dentistry'' \<or> js_includes name ''pharmacy''
         \<or> js_includes name ''optometry'' \<or> js_includes name ''occupational''
         \<or> js_includes name ''therapy'' \<or> js_includes name ''psychological''
         \<or> js_includes name ''pathology'' \<or> js_includes name ''medical''
      then medicineHealth
      else if js_includes name ''physics'' \<or> js_includes name ''chemistry''
         \<or> js_includes name ''biology'' \<or> js_includes name ''astronomy''
         \<or> js_includes name ''science'' \<or> js_includes name ''medical''
      then science
      else if js_includes name ''law'' \<or> js_includes name ''legal''
         \<or> js_includes name ''jurisprudence'' \<or> js_includes name ''government''
         \<or> js_includes name ''politics'' \<or> js_includes name ''foreign''
         \<or> js_includes name ''policy'' \<or> js_includes name ''politic''
         \<or> js_includes name ''national'' \<or> js_includes name ''protection''
      then lawGovernment
      else if js_includes name ''ttqav2'' \<or> js_includes name ''history''
         \<or> js_includes name ''geography'' \<or> js_includes name ''philosophy''
         \<or> js_includes name ''logic'' \<or> js_includes name ''logical''
         \<or> js_includes name ''reasoning'' \<or> js_includes name ''religions''
         \<or> js_includes name ''principles'' \<or> js_includes name ''moral''
      then humanitiesPhilosophy
      else if js_includes name ''business'' \<or> js_includes name ''economics''
         \<or> js_includes name ''marketing'' \<or> js_includes name ''accounting''
         \<or> js_includes name ''management'' \<or> js_includes name ''finance''
         \<or> js_includes name ''financial'' \<or> js_includes name ''analysis''
         \<or> js_includes name ''auditing'' \<or> js_includes name ''taxation''
         \<or> js_includes name ''insurance'' \<or> js_includes name ''trade''
         \<or> js_includes name ''real'' \<or> js_includes name ''estate''
         \<or> js_includes name ''trust'' \<or> js_includes name ''public''
         \<or> js_includes name ''relations'' \<or> js_includes name ''money''
         \<or> js_includes name ''laundering'' \<or> js_includes name ''econometrics''
         \<or> js_includes name ''humanities''
      then businessEconomics
      else if js_includes name ''psychology'' \<or> js_includes name ''sociology''
         \<or> js_includes name ''behavior'' \<or> js_includes name ''sexuality''
         \<or> js_includes name ''aging'' \<or> js_includes name ''social''
         \<or> js_includes name ''studies''
      then socialSciences
      else if js_includes name ''education'' \<or> js_includes name ''profession''
      then education
      else if js_includes name ''mechanical'' \<or> js_includes name ''technical''
         \<or> js_includes name ''electrical'' \<or> js_includes name ''engineering''
      then engineeringTechnical
      else if js_includes name ''music'' \<or> js_includes name ''culinary''
         \<or> js_includes name ''physical'' \<or> js_includes name ''nautical''
         \<or> js_includes name ''agriculture'' \<or> js_includes name ''fire''
      then vocationalArts
      else if js_includes name ''chinese'' \<or> js_includes name ''language''
         \<or> js_includes name ''literature'' \<or> js_includes name ''taiwanese''
         \<or> js_includes name ''hokkien''
      then languagesLiterature
      else if js_includes name ''miscellaneous'' \<or> js_includes name ''design''
         \<or> js_includes name ''global'' \<or> js_includes name ''facts''
      then miscellaneous
      else other)"

section \<open>Parsed documents\<close>

text \<open>
  A raw result document is a parsed JSON value. An object is the list of its properties
  in enumeration order, which is the order \<^verbatim>\<open>Object.entries\<close> yields them in; its
  keys are pairwise distinct. Numbers are modelled as real numbers: the pipeline copies
  them, and the only arithmetic on them is the sum and the quotient of the ranking average.
\<close>

datatype json =
    JNull
  | JBool bool
  | JNum real
  | JStr string
  | JArr "json list"
  | JObj "(string \<times> json) list"

datatype js_error = TypeError

text \<open>\<^verbatim>\<open>typeof v === 'object' && v !== null\<close>: arrays are objects too.\<close>

fun is_object :: "json \<Rightarrow> bool" where
  "is_object (JArr xs) = True"
| "is_object (JObj kvs) = True"
| "is_object v = False"

text \<open>
  \<^verbatim>\<open>v.name\<close> for the property names the pipeline reads (\<^verbatim>\<open>dataset_results\<close>,
  \<^verbatim>\<open>results\<close>, \<^verbatim>\<open>file\<close>, \<^verbatim>\<open>accuracy_mean\<close>, \<^verbatim>\<open>accuracy_std\<close>,
  \<^verbatim>\<open>individual_runs\<close>, \<^verbatim>\<open>accuracies\<close>): none of them is an index,
  \<^verbatim>\<open>length\<close> or a name on a built-in prototype, so only an object can have one.
  Reading a property of \<^verbatim>\<open>null\<close> throws a TypeError; \<open>None\<close> is \<^verbatim>\<open>undefined\<close>.
\<close>

fun get_prop :: "json \<Rightarrow> string \<Rightarrow> js_error + json option" where
  "get_prop JNull name = Inl TypeError"
| "get_prop (JObj kvs) name = Inr (map_of kvs name)"
| "get_prop v name = Inr None"

text \<open>Truthiness of a value that may be \<^verbatim>\<open>undefined\<close>.\<close>

fun truthy :: "json option \<Rightarrow> bool" where
  "truthy None = False"
| "truthy (Some JNull) = False"
| "truthy (Some (JBool b)) = b"
| "truthy (Some (JNum x)) = (x \<noteq> 0)"
| "truthy (Some (JStr s)) = (s \<noteq> [])"
| "truthy (Some (JArr xs)) = True"
| "truthy (Some (JObj kvs)) = True"

definition digit_char :: "nat \<Rightarrow> char" where
  "digit_char d = ''0123456789'' ! d"

function string_of_nat :: "nat \<Rightarrow> string" where
  "string_of_nat n =
     (if n < 10 then [digit_char n] else string_of_nat (n div 10) @ [digit_char (n mod 10)])"
  by pat_completeness auto
termination
  by (relation "measure (\<lambda>n. n)") auto

definition index_keys :: "nat \<Rightarrow> string list" where
  "index_keys n = map string_of_nat [0..<n]"

text \<open>
  \<^verbatim>\<open>Object.entries(v)\<close>: the properties of an object, the indexed elements of an
  array, the indexed characters of a string, nothing for a number or a boolean, and a
  TypeError for \<^verbatim>\<open>null\<close>.
\<close>

fun object_entries :: "json \<Rightarrow> js_error + (string \<times> json) list" where
  "object_entries JNull = Inl TypeError"
| "object_entries (JObj kvs) = Inr kvs"
| "object_entries (JArr xs) = Inr (zip (index_keys (length xs)) xs)"
| "object_entries (JStr s) = Inr (zip (index_keys (length s)) (map (\<lambda>c. JStr [c]) s))"
| "object_entries v = Inr []"

section \<open>Result flattener\<close>

record CategoryResult =
  category :: string
  file_name :: string
  accuracy_mean :: real
  accuracy_std :: "json option"

text \<open>The legacy naming override of \<^verbatim>\<open>tw-legal-benchmark-v1\<close>.\<close>

definition legacy_override :: "string \<Rightarrow> string \<Rightarrow> string" where
  "legacy_override normalizedDataset cat =
     (if normalizedDataset = ''tw-legal-benchmark-v1'' \<and> cat = ''default''
      then ''benchmark'' else cat)"

text \<open>
  The body of the inner loop for one entry of a \<^verbatim>\<open>results\<close> array: the three property
  reads come first, then the shape check; \<open>Inr None\<close> is an entry that is skipped.
\<close>

definition flatten_entry :: "string \<Rightarrow> json \<Rightarrow> js_error + CategoryResult option" where
  "flatten_entry normalizedDataset result =
     (case get_prop result ''file'' of
        Inl e \<Rightarrow> Inl e
      | Inr file_v \<Rightarrow>
     (case get_prop result ''accuracy_mean'' of
        Inl e \<Rightarrow> Inl e
      | Inr mean_v \<Rightarrow>
     (case get_prop result ''accuracy_std'' of
        Inl e \<Rightarrow> Inl e
      | Inr std_v \<Rightarrow>
     (case (file_v, mean_v) of
        (Some (JStr f), Some (JNum a)) \<Rightarrow>
          Inr (Some \<lparr>category =
                       normalizedDataset @ ''/''
                         @ legacy_override normalizedDataset (extractCategory f),
                     file_name = f, accuracy_mean = a, accuracy_std = std_v\<rparr>)
      | _ \<Rightarrow> Inr None))))"

fun flatten_results ::
  "string \<Rightarrow> json list \<Rightarrow> CategoryResult list \<Rightarrow> js_error + CategoryResult list" where
  "flatten_results normalizedDataset [] results = Inr results"
| "flatten_results normalizedDataset (r # rs) results =
     (case flatten_entry normalizedDataset r of
        Inl e \<Rightarrow> Inl e
      | Inr None \<Rightarrow> flatten_results normalizedDataset rs results
      | Inr (Some cr) \<Rightarrow> flatten_results normalizedDataset rs (results @ [cr]))"

fun flatten_datasets ::
  "(string \<times> json) list \<Rightarrow> CategoryResult list \<Rightarrow> js_error + CategoryResult list" where
  "flatten_datasets [] results = Inr results"
| "flatten_datasets ((datasetKey, datasetValue) # rest) results =
     (let normalizedDataset = normalizeDatasetKey datasetKey in
      if \<not> is_object datasetValue then flatten_datasets rest results
      else (case get_prop datasetValue ''results'' of
              Inl e \<Rightarrow> Inl e
            | Inr (Some (JArr resultsList)) \<Rightarrow>
                (case flatten_results normalizedDataset resultsList results of
                   Inl e \<Rightarrow> Inl e
                 | Inr results' \<Rightarrow> flatten_datasets rest results')
            | Inr _ \<Rightarrow> flatten_datasets rest results))"

definition flattenDatasetResults :: "json \<Rightarrow> js_error + CategoryResult list" where
  "flattenDatasetResults rawData =
     (if \<not> is_object rawData then Inr []
      else (case get_prop rawData ''dataset_results'' of
              Inl e \<Rightarrow> Inl e
            | Inr datasetResults \<Rightarrow>
                if \<not> truthy datasetResults then Inr []
                else (case object_entries (the datasetResults) of
                        Inl e \<Rightarrow> Inl e
                      | Inr entries \<Rightarrow> flatten_datasets entries [])))"

text \<open>
  The classifier as the design describes it: an ordered table of keyword groups, the
  first group with a keyword contained in the lowercased name wins, \<open>other\<close> when
  no group matches. The table lists the groups of \<open>categorizeTest\<close> in its order.
\<close>

definition keyword_rules :: "(string list \<times> CategoryKey) list" where
  "keyword_rules =
    [([''computer'', ''machine_learning'', ''security''], computerScience),
     ([''math'', ''algebra'', ''calculus'', ''geometry'', ''statistics'', ''trigonometry''],
      mathematics),
     ([''medicine'', ''nutrition'', ''anatomy'', ''clinical'', ''virology'', ''genetics'',
       ''pharmacology'', ''veterinary'', ''dentistry'', ''pharmacy'', ''optometry'',
       ''occupational'', ''therapy'', ''psychological'', ''pathology'', ''medical''],
      medicineHealth),
     ([''physics'', ''chemistry'', ''biology'', ''astronomy'', ''science'', ''medical''],
      science),
     ([''law'', ''legal'', ''jurisprudence'', ''government'', ''politics'', ''foreign'',
       ''policy'', ''politic'', ''national'', ''protection''], lawGovernment),
     ([''ttqav2'', ''history'', ''geography'', ''philosophy'', ''logic'', ''logical'',
       ''reasoning'', ''religions'', ''principles'', ''moral''], humanitiesPhilosophy),
     ([''business'', ''economics'', ''marketing'', ''accounting'', ''management'',
       ''finance'', ''financial'', ''analysis'', ''auditing'', ''taxation'', ''insurance'',
       ''trade'', ''real'', ''estate'', ''trust'', ''public'', ''relations'', ''money'',
       ''laundering'', ''econometrics'', ''humanities''], businessEconomics),
     ([''psychology'', ''sociology'', ''behavior'', ''sexuality'', ''aging'', ''social'',
       ''studies''], socialSciences),
     ([''education'', ''profession''], education),
     ([''mechanical'', ''technical'', ''electrical'', ''engineering''],
      engineeringTechnical),
     ([''music'', ''culinary'', ''physical'', ''nautical'', ''agriculture'', ''fire''],
      vocationalArts),
     ([''chinese'', ''language'', ''literature'', ''taiwanese'', ''hokkien''],
      languagesLiterature),
     ([''miscellaneous'', ''design'', ''global'', ''facts''], miscellaneous)]"

definition group_matches :: "string \<Rightarrow> string list \<times> CategoryKey \<Rightarrow> bool" where
  "group_matches name rule = list_ex (js_includes name) (fst rule)"

definition first_match :: "string \<Rightarrow> CategoryKey" where
  "first_match name =
     (case find (group_matches name) keyword_rules of
        Some rule \<Rightarrow> snd rule
      | None \<Rightarrow> other)"

text \<open>
  The category extractor as the design words it: keep only the final segment of the
  path, then strip a trailing \<^verbatim>\<open>_test\<close> plus extension or, if that pattern does not
  match, a bare trailing extension. \<open>cut_suffix\<close> removes the first alternative that
  is a suffix of the string.
\<close>

definition cut_suffix :: "string list \<Rightarrow> string \<Rightarrow> string option" where
  "cut_suffix alts s =
     (case find (\<lambda>a. suffix a s) alts of
        Some a \<Rightarrow> Some (take (length s - length a) s)
      | None \<Rightarrow> None)"

definition extractCategory_spec :: "string \<Rightarrow> string" where
  "extractCategory_spec filename =
     (let name = or_else (js_pop (js_split ''/'' filename)) [] in
      case cut_suffix test_ext_alts name of
        Some stem \<Rightarrow> stem
      | None \<Rightarrow> (case cut_suffix ext_alts name of Some stem \<Rightarrow> stem | None \<Rightarrow> name))"

section \<open>Category grouper\<close>

text \<open>
  The \<^verbatim>\<open>grouped\<close> object: its keys in insertion order, each with its bucket.
  \<open>AList.update\<close> overwrites the value of a key in place and appends a new key at the
  end, as a property assignment on an object (or \<^verbatim>\<open>Map.set\<close>) does.
\<close>

type_synonym grouped = "(CategoryKey \<times> CategoryResult list) list"

definition group_push :: "CategoryResult \<Rightarrow> grouped \<Rightarrow> grouped" where
  "group_push result grouped =
     (let cat = categorizeTest (category result);
          grouped1 = (if map_of grouped cat = None then AList.update cat [] grouped
                      else grouped);
          bucket = (case map_of grouped1 cat of Some b \<Rightarrow> b | None \<Rightarrow> [])
      in AList.update cat (bucket @ [result]) grouped1)"

fun groupByCategory_loop :: "CategoryResult list \<Rightarrow> grouped \<Rightarrow> grouped" where
  "groupByCategory_loop [] grouped = grouped"
| "groupByCategory_loop (result # results) grouped =
     groupByCategory_loop results (group_push result grouped)"

definition groupByCategory :: "CategoryResult list \<Rightarrow> grouped" where
  "groupByCategory results = groupByCategory_loop results []"

section \<open>Data sources\<close>

text \<open>
  One loaded result file with its metadata. The field \<^verbatim>\<open>id\<close> is named
  \<open>source_id\<close> here.
\<close>

record DataSource =
  source_id :: string
  label :: string
  provider :: string
  modelName :: string
  modelId :: string
  variance :: string
  openSource :: bool
  timestamp :: string
  isOfficial :: bool
  data :: json
  rawData :: json



section \<open>Pivot builder\<close>

text \<open>
  A pivot row: its \<^verbatim>\<open>category\<close> and its dynamic cells, one per source label, in
  insertion order. A source label always holds \<^verbatim>\<open>" @ "\<close>, so a cell never has the
  key \<^verbatim>\<open>category\<close>. \<open>categoryMap\<close> is the \<^verbatim>\<open>Map\<close> from category path to row.
\<close>

record PivotRow =
  row_category :: string
  cells :: "(string \<times> real) list"

type_synonym categoryMap = "(string \<times> PivotRow) list"


text \<open>The body of the inner loop: get or create the row, then assign the cell.\<close>

definition pivot_set :: "string \<Rightarrow> CategoryResult \<Rightarrow> categoryMap \<Rightarrow> categoryMap" where
  "pivot_set srcLabel result categoryMap =
     (let fresh = \<lparr>row_category = category result, cells = []\<rparr>;
          categoryMap1 =
            (case map_of categoryMap (category result) of
               None \<Rightarrow> AList.update (category result) fresh categoryMap
             | Some row \<Rightarrow> categoryMap);
          row = (case map_of categoryMap1 (category result) of
                   Some r \<Rightarrow> r | None \<Rightarrow> fresh)
      in AList.update (category result)
           (row\<lparr>cells := AList.update srcLabel (accuracy_mean result) (cells row)\<rparr>)
           categoryMap1)"






definition pivot_inv :: "categoryMap \<Rightarrow> bool" where
  "pivot_inv m \<longleftrightarrow>
     distinct (map fst m)
     \<and> (\<forall>(k, row) \<in> set m. row_category row = k \<and> distinct (map fst (cells row)))"

section \<open>Ranking aggregator\<close>









text \<open>
  A ranking row: the fixed fields (those that repeat a field of the source carry a
  prime) and the dynamic per-test fields. \<^verbatim>\<open>average\<close> is assigned after the
  per-test fields, so it holds the computed mean whatever the tests are called.
\<close>

record ModelRankingRow =
  key :: string
  provider' :: string
  modelName' :: string
  modelId' :: string
  displayName :: string
  openSource' :: bool
  isOfficial' :: bool
  timestamp' :: string
  average :: real
  test_scores :: "(string \<times> real) list"



















section \<open>Category dashboard: the per-test value maps\<close>

text \<open>
  The first pass of the \<^verbatim>\<open>categoryStats\<close> computation of the category dashboard:
  for every source, every category bucket of its flattened records and every record, the
  test entry of the category gets the triple \<^verbatim>\<open>{avg, min, max}\<close> under the source
  identifier. The second pass only derives statistics from these maps. The fields
  \<^verbatim>\<open>min\<close>, \<^verbatim>\<open>max\<close>, \<^verbatim>\<open>values\<close> and \<^verbatim>\<open>variance\<close> carry a prime here.
\<close>

record TestStat =
  avg :: real
  min' :: real
  max' :: real

record TestEntry =
  testName :: string
  fullPath :: string
  dataset :: string
  values' :: "(string \<times> TestStat) list"

record CategoryStats =
  name :: CategoryKey
  testCount :: nat
  tests :: "TestEntry list"
  avgPerModel :: "(string \<times> real) list"
  minPerModel :: "(string \<times> real) list"
  maxPerModel :: "(string \<times> real) list"
  overallAvg :: real
  overallMin :: real
  overallMax :: real
  variance' :: real
























section \<open>The flattener on malformed documents\<close>

text \<open>
  C1 (the flattener never throws; a \<^verbatim>\<open>results\<close> entry without a string
  \<^verbatim>\<open>file\<close> and a numeric \<^verbatim>\<open>accuracy_mean\<close>, \<^verbatim>\<open>null\<close> included, is skipped).
  The code reads \<^verbatim>\<open>result.file\<close> before any check of the entry, so an entry that is
  \<^verbatim>\<open>null\<close> raises a TypeError: the document
  \<^verbatim>\<open>{"dataset_results": {"mmlu": {"results": [null]}}}\<close> does not flatten.
\<close>

theorem flattenDatasetResults_null_entry_throws:
  "flattenDatasetResults
     (JObj [(''dataset_results'', JObj [(''mmlu'', JObj [(''results'', JArr [JNull])])])])
   = Inl TypeError"
  by (simp add: flattenDatasetResults_def flatten_entry_def)

text \<open>
  C6: a document that is not an object (a number, a string, a boolean, \<^verbatim>\<open>null\<close>), or
  that has no \<^verbatim>\<open>dataset_results\<close> property, flattens to the empty list and no
  error is raised.
\<close>

theorem flattenDatasetResults_without_dataset_results:
  "\<not> is_object doc \<or> get_prop doc ''dataset_results'' = Inr None
   \<Longrightarrow> flattenDatasetResults doc = Inr []"
  by (auto simp: flattenDatasetResults_def)

theorem flattenDatasetResults_without_dataset_results_witness:
  "flattenDatasetResults JNull = Inr []
   \<and> flattenDatasetResults (JStr ''dataset_results'') = Inr []
   \<and> flattenDatasetResults (JObj [(''config'', JNum 1), (''results'', JArr [])]) = Inr []
   \<and> flattenDatasetResults (JArr [JObj [(''dataset_results'', JObj [])]]) = Inr []"
  using flattenDatasetResults_without_dataset_results [of JNull]
    flattenDatasetResults_without_dataset_results [of "JStr ''dataset_results''"]
    flattenDatasetResults_without_dataset_results
      [of "JObj [(''config'', JNum 1), (''results'', JArr [])]"]
    flattenDatasetResults_without_dataset_results
      [of "JArr [JObj [(''dataset_results'', JObj [])]]"]
  by simp

section \<open>Subject classifier\<close>

lemma js_includes_sublist: "js_includes s k = sublist k s"
  by (induction s) (auto simp: sublist_Cons_right)

lemma find_None_no_match: "find P xs = None \<longleftrightarrow> (\<forall>x \<in> set xs. \<not> P x)"
  by (induction xs) auto

lemma categorizeTest_cascade: "categorizeTest s = first_match (toLowerCase s)"
  unfolding categorizeTest_def first_match_def keyword_rules_def group_matches_def Let_def
  by simp

text \<open>
  C4: \<open>categorizeTest\<close> is a total function into the fourteen category keys; it is the
  ordered keyword table evaluated on the lowercased name with the first matching group
  winning; \<^verbatim>\<open>medical_ethics\<close> is classified as medicineHealth, the first group that
  holds the keyword \<^verbatim>\<open>medical\<close>, and not as science; and a name in which no keyword of
  any group occurs (occurrence is tested on the lowercased name) is classified as other.
\<close>

theorem categorizeTest_first_match_wins:
  "categorizeTest s = first_match (toLowerCase s)
   \<and> categorizeTest ''medical_ethics'' = medicineHealth
   \<and> categorizeTest ''medical_ethics'' \<noteq> science
   \<and> list_ex (\<lambda>k. sublist k ''medical_ethics'') (fst (keyword_rules ! 3))
   \<and> ((\<forall>rule \<in> set keyword_rules. \<forall>k \<in> set (fst rule). \<not> sublist k (toLowerCase s))
        \<longrightarrow> categorizeTest s = other)"
proof -
  have ex: "categorizeTest ''medical_ethics'' = medicineHealth"
    by (simp add: categorizeTest_def toLowerCase_def lower_char_def)
  have sci: "list_ex (\<lambda>k. sublist k ''medical_ethics'') (fst (keyword_rules ! 3))"
    by (simp add: keyword_rules_def js_includes_sublist [symmetric])
  have none: "categorizeTest s = other"
    if "\<forall>rule \<in> set keyword_rules. \<forall>k \<in> set (fst rule). \<not> sublist k (toLowerCase s)"
  proof -
    from that have "\<forall>rule \<in> set keyword_rules. \<not> group_matches (toLowerCase s) rule"
      by (simp add: group_matches_def list_ex_iff js_includes_sublist)
    then have "find (group_matches (toLowerCase s)) keyword_rules = None"
      by (simp add: find_None_no_match)
    then show ?thesis
      by (simp add: categorizeTest_cascade first_match_def)
  qed
  from ex sci none show ?thesis
    by (simp add: categorizeTest_cascade [symmetric])
qed

theorem categorizeTest_first_match_wins_witness:
  "categorizeTest ''College_Xyz.JSONL'' = other
   \<and> categorizeTest ''College_Xyz.JSONL'' = first_match ''college_xyz.jsonl''"
proof -
  have low: "toLowerCase ''College_Xyz.JSONL'' = ''college_xyz.jsonl''"
    by (simp add: toLowerCase_def lower_char_def)
  have "\<forall>rule \<in> set keyword_rules. \<forall>k \<in> set (fst rule).
          \<not> sublist k (toLowerCase ''College_Xyz.JSONL'')"
    unfolding low by (simp add: keyword_rules_def js_includes_sublist [symmetric])
  with categorizeTest_first_match_wins [of "''College_Xyz.JSONL''"] show ?thesis
    unfolding low by blast
qed

section \<open>Key normalizer\<close>

lemma strip_trailing_slashes_no_slash:
  "slash \<notin> set s \<Longrightarrow> strip_trailing_slashes s = s"
  by (induction s) auto

lemma strip_trailing_slashes_Nil:
  "strip_trailing_slashes s = [] \<longleftrightarrow> list_all (\<lambda>x. x = slash) s"
  by (induction s) auto

lemma strip_trailing_slashes_last:
  "strip_trailing_slashes s \<noteq> [] \<Longrightarrow> last (strip_trailing_slashes s) \<noteq> slash"
  by (induction s) (auto simp: strip_trailing_slashes_Nil split: if_splits)

lemma split_at_not_Nil: "split_at sep s \<noteq> []"
  by (induction sep s rule: split_at.induct) (auto simp: neq_Nil_conv)

lemma push_front_not_Nil: "push_front c xs \<noteq> []"
  by (cases xs) auto

lemma last_push_front:
  "last (push_front c xs) = (if length xs \<le> 1 then c # concat xs else last xs)"
  by (cases xs) (auto simp: neq_Nil_conv)

lemma split_at_single: "split_at sep s = [x] \<Longrightarrow> x = s"
proof (induction sep s arbitrary: x rule: split_at.induct)
  case (1 sep)
  then show ?case by simp
next
  case (2 sep c cs)
  from "2.prems" have nomatch: "\<not> (prefix sep (c # cs) \<and> sep \<noteq> [])"
    using split_at_not_Nil [of sep "drop (length sep - 1) cs"] by (auto split: if_splits)
  with "2.prems" have pf: "push_front c (split_at sep cs) = [x]"
    by simp
  obtain y ys where ys: "split_at sep cs = y # ys"
    using split_at_not_Nil [of sep cs] by (auto simp: neq_Nil_conv)
  with pf have "ys = []" and x: "x = c # y"
    by auto
  with ys "2.IH"(2) [OF nomatch, of y] show ?case
    by simp
qed

lemma split_at_last_fixed:
  "split_at sep (last (split_at sep s)) = [last (split_at sep s)]"
proof (induction sep s rule: split_at.induct)
  case (1 sep)
  then show ?case by simp
next
  case (2 sep c cs)
  show ?case
  proof (cases "prefix sep (c # cs) \<and> sep \<noteq> []")
    case True
    with "2.IH"(1) show ?thesis
      by (simp add: split_at_not_Nil)
  next
    case False
    obtain y ys where ys: "split_at sep cs = y # ys"
      using split_at_not_Nil [of sep cs] by (auto simp: neq_Nil_conv)
    show ?thesis
    proof (cases "ys = []")
      case True
      with ys have "y = cs"
        using split_at_single by blast
      with ys True False show ?thesis
        by auto
    next
      case nonempty: False
      with ys False "2.IH"(2) show ?thesis
        by auto
    qed
  qed
qed

lemma split_at_segments_subset: "x \<in> set (split_at sep s) \<Longrightarrow> set x \<subseteq> set s"
proof (induction sep s arbitrary: x rule: split_at.induct)
  case (1 sep)
  then show ?case by simp
next
  case (2 sep c cs)
  show ?case
  proof (cases "prefix sep (c # cs) \<and> sep \<noteq> []")
    case True
    with "2.prems" have "x = [] \<or> x \<in> set (split_at sep (drop (length sep - 1) cs))"
      by simp
    with "2.IH"(1) [OF True] show ?thesis
      using set_drop_subset [of "length sep - 1" cs] by fastforce
  next
    case False
    obtain y ys where ys: "split_at sep cs = y # ys"
      using split_at_not_Nil [of sep cs] by (auto simp: neq_Nil_conv)
    with "2.prems" False have "x = c # y \<or> x \<in> set (split_at sep cs)"
      by auto
    with "2.IH"(2) [OF False] ys show ?thesis
      by fastforce
  qed
qed

lemma split_at_char_absent: "d \<notin> set s \<Longrightarrow> split_at [d] s = [s]"
  by (induction s) auto

lemma split_at_char_segments: "x \<in> set (split_at [d] s) \<Longrightarrow> d \<notin> set x"
proof (induction s arbitrary: x)
  case Nil
  then show ?case by simp
next
  case (Cons c cs)
  obtain y ys where ys: "split_at [d] cs = y # ys"
    using split_at_not_Nil [of "[d]" cs] by (auto simp: neq_Nil_conv)
  with Cons show ?case
    by (auto split: if_splits)
qed

lemma split_at_char_last_empty:
  "last (split_at [d] s) = [] \<Longrightarrow> s = [] \<or> last s = d"
proof (induction s)
  case Nil
  then show ?case by simp
next
  case (Cons c cs)
  obtain y ys where ys: "split_at [d] cs = y # ys"
    using split_at_not_Nil [of "[d]" cs] by (auto simp: neq_Nil_conv)
  with Cons show ?case
    by (auto split: if_splits)
qed

lemma last_segment_no_slash:
  "slash \<notin> set (or_else (js_pop (js_split ''/'' (strip_trailing_slashes k)))
                    (strip_trailing_slashes k))"
proof -
  let ?n = "strip_trailing_slashes k"
  let ?a = "last (split_at [slash] ?n)"
  have seg: "slash \<notin> set ?a"
    using split_at_char_segments [of ?a slash ?n] split_at_not_Nil [of "[slash]" ?n]
    by simp
  have "?n = []" if "?a = []"
    using split_at_char_last_empty [OF that] strip_trailing_slashes_last [of k] by blast
  with seg show ?thesis
    by (auto simp: or_else_def js_pop_def js_split_def split_at_not_Nil slash_def)
qed

lemma normalizeDatasetKey_no_slash: "slash \<notin> set (normalizeDatasetKey k)"
proof -
  let ?m = "or_else (js_pop (js_split ''/'' (strip_trailing_slashes k)))
              (strip_trailing_slashes k)"
  have "set (last (split_at ''__'' ?m)) \<subseteq> set ?m"
    using split_at_segments_subset [of "last (split_at ''__'' ?m)" "''__''" ?m]
      split_at_not_Nil [of "''__''" ?m] by simp
  with last_segment_no_slash [of k] show ?thesis
    by (auto simp: normalizeDatasetKey_def Let_def or_else_def js_pop_def js_split_def
        split_at_not_Nil)
qed

lemma normalizeDatasetKey_fixed:
  "or_else (js_pop (js_split ''__'' (normalizeDatasetKey k))) (normalizeDatasetKey k)
   = normalizeDatasetKey k"
proof -
  let ?m = "or_else (js_pop (js_split ''/'' (strip_trailing_slashes k)))
              (strip_trailing_slashes k)"
  let ?b = "last (split_at ''__'' ?m)"
  have n: "normalizeDatasetKey k = (if ?b = [] then ?m else ?b)"
    by (simp add: normalizeDatasetKey_def Let_def or_else_def js_pop_def js_split_def
        split_at_not_Nil)
  show ?thesis
  proof (cases "?b = []")
    case True
    with n show ?thesis
      by (simp add: or_else_def js_pop_def js_split_def split_at_not_Nil)
  next
    case False
    with n have "normalizeDatasetKey k = ?b"
      by simp
    with split_at_last_fixed [of "''__''" ?m] show ?thesis
      by (simp add: or_else_def js_pop_def js_split_def)
  qed
qed

text \<open>
  C7: the key normalizer is idempotent, it maps \<^verbatim>\<open>datasets/cais__mmlu/\<close> to
  \<^verbatim>\<open>mmlu\<close> and leaves \<^verbatim>\<open>mmlu\<close> as it is.
\<close>

theorem normalizeDatasetKey_idempotent:
  "normalizeDatasetKey (normalizeDatasetKey k) = normalizeDatasetKey k
   \<and> normalizeDatasetKey ''datasets/cais__mmlu/'' = ''mmlu''
   \<and> normalizeDatasetKey ''mmlu'' = ''mmlu''"
proof -
  let ?r = "normalizeDatasetKey k"
  have noslash: "slash \<notin> set ?r"
    by (rule normalizeDatasetKey_no_slash)
  then have strip: "strip_trailing_slashes ?r = ?r"
    by (rule strip_trailing_slashes_no_slash)
  from noslash have "split_at [slash] ?r = [?r]"
    by (rule split_at_char_absent)
  then have seg: "or_else (js_pop (js_split ''/'' ?r)) ?r = ?r"
    by (simp add: or_else_def js_pop_def js_split_def slash_def)
  have "normalizeDatasetKey ?r = or_else (js_pop (js_split ''__'' ?r)) ?r"
    unfolding normalizeDatasetKey_def [of ?r] Let_def strip seg ..
  then have idem: "normalizeDatasetKey ?r = ?r"
    by (simp only: normalizeDatasetKey_fixed)
  have e1: "normalizeDatasetKey ''datasets/cais__mmlu/'' = ''mmlu''"
    by (simp add: normalizeDatasetKey_def js_split_def js_pop_def or_else_def slash_def)
  have e2: "normalizeDatasetKey ''mmlu'' = ''mmlu''"
    by (simp add: normalizeDatasetKey_def js_split_def js_pop_def or_else_def slash_def)
  from idem e1 e2 show ?thesis
    by simp
qed

theorem normalizeDatasetKey_idempotent_witness:
  "normalizeDatasetKey (normalizeDatasetKey ''hf://datasets/ikala__tmmluplus//'')
   = normalizeDatasetKey ''hf://datasets/ikala__tmmluplus//''
   \<and> normalizeDatasetKey ''hf://datasets/ikala__tmmluplus//'' = ''tmmluplus''"
proof -
  have "normalizeDatasetKey ''hf://datasets/ikala__tmmluplus//'' = ''tmmluplus''"
    by (simp add: normalizeDatasetKey_def js_split_def js_pop_def or_else_def slash_def)
  with normalizeDatasetKey_idempotent [of "''hf://datasets/ikala__tmmluplus//''"]
  show ?thesis
    by simp
qed

section \<open>Category extractor\<close>

lemma suffix_last: "suffix a s \<Longrightarrow> a \<noteq> [] \<Longrightarrow> last s = last a"
  by (auto simp: suffix_def)

lemma ext_alts_unique:
  "a \<in> set ext_alts \<Longrightarrow> b \<in> set ext_alts \<Longrightarrow> suffix a s \<Longrightarrow> suffix b s \<Longrightarrow> a = b"
proof -
  assume a: "a \<in> set ext_alts" and b: "b \<in> set ext_alts"
    and sa: "suffix a s" and sb: "suffix b s"
  from a b have ne: "a \<noteq> []" "b \<noteq> []"
    by (auto simp: ext_alts_def)
  with sa sb have "last a = last b"
    using suffix_last by metis
  with a b show "a = b"
    by (auto simp: ext_alts_def)
qed

lemma test_ext_alts_unique:
  "a \<in> set test_ext_alts \<Longrightarrow> b \<in> set test_ext_alts \<Longrightarrow> suffix a s \<Longrightarrow> suffix b s
   \<Longrightarrow> a = b"
proof -
  assume a: "a \<in> set test_ext_alts" and b: "b \<in> set test_ext_alts"
    and sa: "suffix a s" and sb: "suffix b s"
  from a b have ne: "a \<noteq> []" "b \<noteq> []"
    by (auto simp: test_ext_alts_def)
  with sa sb have "last a = last b"
    using suffix_last by metis
  with a b show "a = b"
    by (auto simp: test_ext_alts_def)
qed

lemma find_suffix_Cons:
  "c # cs \<notin> set alts
   \<Longrightarrow> find (\<lambda>a. suffix a (c # cs)) alts = find (\<lambda>a. suffix a cs) alts"
  by (rule find_cong) (auto simp: suffix_Cons)

lemma replace_at_end_cut_suffix:
  assumes "[] \<notin> set alts"
    and "\<And>a b. a \<in> set alts \<Longrightarrow> b \<in> set alts \<Longrightarrow> suffix a s \<Longrightarrow> suffix b s \<Longrightarrow> a = b"
  shows "replace_at_end alts s = (case cut_suffix alts s of Some t \<Rightarrow> t | None \<Rightarrow> s)"
  using assms
proof (induction s)
  case Nil
  then have "find (\<lambda>a. suffix a []) alts = None"
    by (auto simp: find_None_no_match)
  then show ?case
    by (simp add: cut_suffix_def)
next
  case (Cons c cs)
  show ?case
  proof (cases "c # cs \<in> set alts")
    case True
    obtain a where fa: "find (\<lambda>a. suffix a (c # cs)) alts = Some a"
      using True by (cases "find (\<lambda>a. suffix a (c # cs)) alts")
        (auto simp: find_None_no_match)
    then have "a \<in> set alts" "suffix a (c # cs)"
      by (auto simp: find_Some_iff)
    with True Cons.prems(2) [of a "c # cs"] have "a = c # cs"
      by simp
    with fa True show ?thesis
      by (simp add: cut_suffix_def)
  next
    case False
    have uniq: "\<And>a b. a \<in> set alts \<Longrightarrow> b \<in> set alts \<Longrightarrow> suffix a cs \<Longrightarrow> suffix b cs
                 \<Longrightarrow> a = b"
      using Cons.prems(2) by (simp add: suffix_Cons)
    have ih: "replace_at_end alts cs = (case cut_suffix alts cs of Some t \<Rightarrow> t | None \<Rightarrow> cs)"
      by (rule Cons.IH [OF Cons.prems(1) uniq])
    show ?thesis
    proof (cases "find (\<lambda>a. suffix a cs) alts")
      case None
      with False ih show ?thesis
        by (simp add: cut_suffix_def find_suffix_Cons)
    next
      case (Some a)
      then have "suffix a cs"
        by (auto simp: find_Some_iff)
      then have "length a \<le> length cs"
        by (rule suffix_length_le)
      with Some False ih show ?thesis
        by (simp add: cut_suffix_def find_suffix_Cons Suc_diff_le)
    qed
  qed
qed

lemma extractCategory_suffixes:
  "extractCategory filename =
     (let base = or_else (js_pop (js_split ''/'' filename)) filename;
          stem = (case cut_suffix test_ext_alts base of Some t \<Rightarrow> t | None \<Rightarrow> base)
      in case cut_suffix ext_alts stem of Some t \<Rightarrow> t | None \<Rightarrow> stem)"
proof -
  have t: "replace_at_end test_ext_alts s
           = (case cut_suffix test_ext_alts s of Some t \<Rightarrow> t | None \<Rightarrow> s)" for s
  proof (rule replace_at_end_cut_suffix)
    show "[] \<notin> set test_ext_alts"
      by (simp add: test_ext_alts_def)
  next
    fix a b
    assume "a \<in> set test_ext_alts" "b \<in> set test_ext_alts" "suffix a s" "suffix b s"
    then show "a = b"
      by (rule test_ext_alts_unique)
  qed
  have e: "replace_at_end ext_alts s
           = (case cut_suffix ext_alts s of Some t \<Rightarrow> t | None \<Rightarrow> s)" for s
  proof (rule replace_at_end_cut_suffix)
    show "[] \<notin> set ext_alts"
      by (simp add: ext_alts_def)
  next
    fix a b
    assume "a \<in> set ext_alts" "b \<in> set ext_alts" "suffix a s" "suffix b s"
    then show "a = b"
      by (rule ext_alts_unique)
  qed
  show ?thesis
    by (simp add: extractCategory_def Let_def t e)
qed

text \<open>
  C8 as stated fails in two places. The two \<^verbatim>\<open>replace\<close> calls are chained, so a
  stem that itself ends in an extension loses it as well: \<^verbatim>\<open>a.csv_test.json\<close> gives
  \<^verbatim>\<open>a\<close>, where "or else" gives \<^verbatim>\<open>a.csv\<close>. And a filename that ends in a slash has
  an empty final segment, for which the code falls back to the whole filename, path
  included.
\<close>

theorem extractCategory_or_else_counterexample:
  "extractCategory ''a.csv_test.json'' = ''a''
   \<and> extractCategory_spec ''a.csv_test.json'' = ''a.csv''
   \<and> extractCategory ''runs/'' = ''runs/''
   \<and> extractCategory_spec ''runs/'' = ''''"
  by (simp add: extractCategory_def extractCategory_spec_def cut_suffix_def
      suffix_to_prefix js_split_def js_pop_def or_else_def test_ext_alts_def ext_alts_def)

text \<open>
  C8 amended: \<open>extractCategory\<close> keeps the last slash-separated segment of the filename
  (the whole filename when that segment is empty), removes a trailing \<^verbatim>\<open>_test.<ext>\<close>
  if there is one, and then removes a trailing \<^verbatim>\<open>.<ext>\<close> from what is left, with the
  extension one of jsonl, json, csv, parquet. The two examples hold, and in the flattener
  an entry whose dataset key normalizes to \<^verbatim>\<open>tw-legal-benchmark-v1\<close> and whose file
  extracts to exactly \<^verbatim>\<open>default\<close> gets the category
  \<^verbatim>\<open>tw-legal-benchmark-v1/benchmark\<close>.
\<close>

theorem extractCategory_chained:
  "extractCategory filename =
     (let base = or_else (js_pop (js_split ''/'' filename)) filename;
          stem = (case cut_suffix test_ext_alts base of Some t \<Rightarrow> t | None \<Rightarrow> base)
      in case cut_suffix ext_alts stem of Some t \<Rightarrow> t | None \<Rightarrow> stem)
   \<and> extractCategory ''abstract_algebra_test.jsonl'' = ''abstract_algebra''
   \<and> extractCategory ''foo.csv'' = ''foo''
   \<and> (normalizeDatasetKey k = ''tw-legal-benchmark-v1'' \<and> extractCategory f = ''default''
      \<and> get_prop e ''file'' = Inr (Some (JStr f))
      \<and> get_prop e ''accuracy_mean'' = Inr (Some (JNum a))
      \<longrightarrow> (\<exists>cr. flatten_entry (normalizeDatasetKey k) e = Inr (Some cr)
                \<and> category cr = ''tw-legal-benchmark-v1/benchmark''
                \<and> category cr \<noteq> ''tw-legal-benchmark-v1/default''))"
proof -
  have e1: "extractCategory ''abstract_algebra_test.jsonl'' = ''abstract_algebra''"
    by (simp add: extractCategory_def js_split_def js_pop_def or_else_def
        test_ext_alts_def ext_alts_def)
  have e2: "extractCategory ''foo.csv'' = ''foo''"
    by (simp add: extractCategory_def js_split_def js_pop_def or_else_def
        test_ext_alts_def ext_alts_def)
  have leg: "\<exists>cr. flatten_entry (normalizeDatasetKey k) e = Inr (Some cr)
                \<and> category cr = ''tw-legal-benchmark-v1/benchmark''
                \<and> category cr \<noteq> ''tw-legal-benchmark-v1/default''"
    if h1: "normalizeDatasetKey k = ''tw-legal-benchmark-v1''"
      and h2: "extractCategory f = ''default''"
      and h3: "get_prop e ''file'' = Inr (Some (JStr f))"
      and h4: "get_prop e ''accuracy_mean'' = Inr (Some (JNum a))"
  proof -
    obtain sd where "get_prop e ''accuracy_std'' = Inr sd"
      using h3 by (cases e) auto
    with h1 h2 h3 h4 show ?thesis
      by (simp add: flatten_entry_def legacy_override_def)
  qed
  from e1 e2 leg extractCategory_suffixes [of filename] show ?thesis
    by blast
qed

theorem extractCategory_chained_witness:
  "extractCategory ''data/default_test.jsonl'' = ''default''
   \<and> normalizeDatasetKey ''datasets/lianghsun__tw-legal-benchmark-v1/''
       = ''tw-legal-benchmark-v1''
   \<and> flattenDatasetResults
       (JObj [(''dataset_results'',
          JObj [(''datasets/lianghsun__tw-legal-benchmark-v1/'',
            JObj [(''results'',
              JArr [JObj [(''file'', JStr ''data/default_test.jsonl''),
                          (''accuracy_mean'', JNum 0.5)]])])])])
     = Inr [\<lparr>category = ''tw-legal-benchmark-v1/benchmark'',
             file_name = ''data/default_test.jsonl'',
             accuracy_mean = 0.5, accuracy_std = None\<rparr>]
   \<and> (\<exists>cr. flatten_entry (normalizeDatasetKey ''datasets/lianghsun__tw-legal-benchmark-v1/'')
              (JObj [(''file'', JStr ''data/default_test.jsonl''),
                     (''accuracy_mean'', JNum 0.5)]) = Inr (Some cr)
            \<and> category cr = ''tw-legal-benchmark-v1/benchmark'')"
proof -
  have x: "extractCategory ''data/default_test.jsonl'' = ''default''"
    by (simp add: extractCategory_def js_split_def js_pop_def or_else_def
        test_ext_alts_def ext_alts_def)
  have n: "normalizeDatasetKey ''datasets/lianghsun__tw-legal-benchmark-v1/''
           = ''tw-legal-benchmark-v1''"
    by (simp add: normalizeDatasetKey_def js_split_def js_pop_def or_else_def slash_def)
  have d: "flattenDatasetResults
       (JObj [(''dataset_results'',
          JObj [(''datasets/lianghsun__tw-legal-benchmark-v1/'',
            JObj [(''results'',
              JArr [JObj [(''file'', JStr ''data/default_test.jsonl''),
                          (''accuracy_mean'', JNum 0.5)]])])])])
     = Inr [\<lparr>category = ''tw-legal-benchmark-v1/benchmark'',
             file_name = ''data/default_test.jsonl'',
             accuracy_mean = 0.5, accuracy_std = None\<rparr>]"
    by (simp add: flattenDatasetResults_def flatten_entry_def legacy_override_def n x)
  have g1: "get_prop (JObj [(''file'', JStr ''data/default_test.jsonl''),
                            (''accuracy_mean'', JNum 0.5)]) ''file''
            = Inr (Some (JStr ''data/default_test.jsonl''))"
    by simp
  have g2: "get_prop (JObj [(''file'', JStr ''data/default_test.jsonl''),
                            (''accuracy_mean'', JNum 0.5)]) ''accuracy_mean''
            = Inr (Some (JNum 0.5))"
    by simp
  from x n d g1 g2
    extractCategory_chained [of "''data/default_test.jsonl''"
      "''datasets/lianghsun__tw-legal-benchmark-v1/''" "''data/default_test.jsonl''"
      "JObj [(''file'', JStr ''data/default_test.jsonl''), (''accuracy_mean'', JNum 0.5)]"
      "0.5"]
  show ?thesis
    by blast
qed

section \<open>Result flattener\<close>

lemma truthy_Some: "truthy v \<Longrightarrow> \<exists>x. v = Some x"
  by (cases v) auto

lemma flatten_entry_Some:
  "flatten_entry nd e = Inr (Some cr)
   \<Longrightarrow> \<exists>f a. get_prop e ''file'' = Inr (Some (JStr f))
         \<and> get_prop e ''accuracy_mean'' = Inr (Some (JNum a))
         \<and> category cr = nd @ ''/'' @ legacy_override nd (extractCategory f)
         \<and> accuracy_mean cr = a \<and> file_name cr = f"
  by (auto simp: flatten_entry_def split: sum.splits option.splits json.splits)

lemma flatten_results_emitted:
  "flatten_results nd rl acc = Inr rs
   \<Longrightarrow> \<exists>new. rs = acc @ new
         \<and> (\<forall>cr \<in> set new. \<exists>e \<in> set rl. flatten_entry nd e = Inr (Some cr))"
proof (induction rl arbitrary: acc)
  case Nil
  then show ?case by simp
next
  case (Cons r rl)
  show ?case
  proof (cases "flatten_entry nd r")
    case (Inl err)
    with Cons.prems show ?thesis by simp
  next
    case (Inr res)
    show ?thesis
    proof (cases res)
      case None
      with Inr Cons.prems have "flatten_results nd rl acc = Inr rs"
        by simp
      from Cons.IH [OF this] show ?thesis
        by auto
    next
      case (Some cr)
      with Inr Cons.prems have "flatten_results nd rl (acc @ [cr]) = Inr rs"
        by simp
      from Cons.IH [OF this] obtain new where
        "rs = (acc @ [cr]) @ new"
        "\<forall>x \<in> set new. \<exists>e \<in> set rl. flatten_entry nd e = Inr (Some x)"
        by blast
      with Inr Some have "rs = acc @ (cr # new)
        \<and> (\<forall>x \<in> set (cr # new). \<exists>e \<in> set (r # rl). flatten_entry nd e = Inr (Some x))"
        by auto
      then show ?thesis
        by blast
    qed
  qed
qed

lemma flatten_datasets_Cons:
  "flatten_datasets ((k, v) # rest) acc = Inr rs
   \<Longrightarrow> flatten_datasets rest acc = Inr rs
     \<or> (\<exists>rl mid. get_prop v ''results'' = Inr (Some (JArr rl))
           \<and> flatten_results (normalizeDatasetKey k) rl acc = Inr mid
           \<and> flatten_datasets rest mid = Inr rs)"
proof (cases "is_object v")
  case False
  assume "flatten_datasets ((k, v) # rest) acc = Inr rs"
  with False show ?thesis by simp
next
  case True
  assume a: "flatten_datasets ((k, v) # rest) acc = Inr rs"
  show ?thesis
  proof (cases "get_prop v ''results''")
    case (Inl e)
    with a True show ?thesis by simp
  next
    case (Inr r)
    show ?thesis
    proof (cases r)
      case None
      with a True Inr show ?thesis by simp
    next
      case (Some j)
      with a True Inr show ?thesis
        by (cases j) (simp_all split: sum.splits)
    qed
  qed
qed

lemma flatten_datasets_emitted:
  "flatten_datasets entries acc = Inr rs
   \<Longrightarrow> \<exists>new. rs = acc @ new
         \<and> (\<forall>cr \<in> set new. \<exists>k v rl e. (k, v) \<in> set entries
               \<and> get_prop v ''results'' = Inr (Some (JArr rl)) \<and> e \<in> set rl
               \<and> flatten_entry (normalizeDatasetKey k) e = Inr (Some cr))"
proof (induction entries arbitrary: acc rs)
  case Nil
  then show ?case by simp
next
  case (Cons entry rest)
  obtain datasetKey datasetValue where entry: "entry = (datasetKey, datasetValue)"
    by (cases entry)
  let ?P = "\<lambda>ents cr. \<exists>k v rl e. (k, v) \<in> set ents
               \<and> get_prop v ''results'' = Inr (Some (JArr rl)) \<and> e \<in> set rl
               \<and> flatten_entry (normalizeDatasetKey k) e = Inr (Some cr)"
  have weaken: "?P (entry # rest) cr" if "?P rest cr" for cr
  proof -
    from that obtain k v rl e where "(k, v) \<in> set rest"
      "get_prop v ''results'' = Inr (Some (JArr rl))" "e \<in> set rl"
      "flatten_entry (normalizeDatasetKey k) e = Inr (Some cr)"
      by blast
    then have "(k, v) \<in> set (entry # rest) \<and> get_prop v ''results'' = Inr (Some (JArr rl))
      \<and> e \<in> set rl \<and> flatten_entry (normalizeDatasetKey k) e = Inr (Some cr)"
      by simp
    then show ?thesis
      by blast
  qed
  from Cons.prems have "flatten_datasets ((datasetKey, datasetValue) # rest) acc = Inr rs"
    by (simp only: entry)
  from flatten_datasets_Cons [OF this]
  consider (skip) "flatten_datasets rest acc = Inr rs"
    | (arr) rl mid where "get_prop datasetValue ''results'' = Inr (Some (JArr rl))"
      "flatten_results (normalizeDatasetKey datasetKey) rl acc = Inr mid"
      "flatten_datasets rest mid = Inr rs"
    by blast
  then show ?case
  proof cases
    case skip
    from Cons.IH [OF skip] obtain new where
      new: "rs = acc @ new" "\<forall>cr \<in> set new. ?P rest cr"
      by blast
    from new(2) weaken have "\<forall>cr \<in> set new. ?P (entry # rest) cr"
      by blast
    with new(1) show ?thesis
      by blast
  next
    case arr
    from flatten_results_emitted [OF arr(2)] obtain n1 where
      n1: "mid = acc @ n1"
      "\<forall>cr \<in> set n1. \<exists>e \<in> set rl.
          flatten_entry (normalizeDatasetKey datasetKey) e = Inr (Some cr)"
      by blast
    from Cons.IH [OF arr(3)] obtain n2 where
      n2: "rs = mid @ n2" "\<forall>cr \<in> set n2. ?P rest cr"
      by blast
    have p1: "?P (entry # rest) cr" if "cr \<in> set n1" for cr
    proof -
      from n1(2) that obtain e where "e \<in> set rl"
        "flatten_entry (normalizeDatasetKey datasetKey) e = Inr (Some cr)"
        by blast
      with arr(1) have "(datasetKey, datasetValue) \<in> set (entry # rest)
        \<and> get_prop datasetValue ''results'' = Inr (Some (JArr rl))
        \<and> e \<in> set rl \<and> flatten_entry (normalizeDatasetKey datasetKey) e = Inr (Some cr)"
        by (simp add: entry)
      then show ?thesis
        by blast
    qed
    have p2: "?P (entry # rest) cr" if "cr \<in> set n2" for cr
      using n2(2) that weaken by blast
    have "\<forall>cr \<in> set (n1 @ n2). ?P (entry # rest) cr"
    proof
      fix cr
      assume "cr \<in> set (n1 @ n2)"
      then have "cr \<in> set n1 \<or> cr \<in> set n2"
        by simp
      then show "?P (entry # rest) cr"
        using p1 p2 by blast
    qed
    moreover from n1(1) n2(1) have "rs = acc @ (n1 @ n2)"
      by simp
    ultimately show ?thesis
      by blast
  qed
qed

text \<open>
  C5: every record the flattener emits comes from one entry of one \<^verbatim>\<open>results\<close>
  array with a string \<^verbatim>\<open>file\<close> and a numeric \<^verbatim>\<open>accuracy_mean\<close>; its category is
  the normalized dataset key, a slash, and the extracted category after the legacy
  override; its \<^verbatim>\<open>accuracy_mean\<close> is the number of the entry as it is, whatever its
  range, and its \<^verbatim>\<open>file\<close> is the entry's.
\<close>

theorem flattenDatasetResults_records:
  assumes "flattenDatasetResults doc = Inr results" and "cr \<in> set results"
  shows "\<exists>datasetResults entries datasetKey datasetValue resultsList e f a.
           get_prop doc ''dataset_results'' = Inr (Some datasetResults)
         \<and> object_entries datasetResults = Inr entries
         \<and> (datasetKey, datasetValue) \<in> set entries
         \<and> get_prop datasetValue ''results'' = Inr (Some (JArr resultsList))
         \<and> e \<in> set resultsList
         \<and> get_prop e ''file'' = Inr (Some (JStr f))
         \<and> get_prop e ''accuracy_mean'' = Inr (Some (JNum a))
         \<and> category cr = normalizeDatasetKey datasetKey @ ''/''
             @ legacy_override (normalizeDatasetKey datasetKey) (extractCategory f)
         \<and> accuracy_mean cr = a
         \<and> file_name cr = f"
proof -
  from assms obtain datasetResults entries where
    dr: "get_prop doc ''dataset_results'' = Inr (Some datasetResults)"
    and en: "object_entries datasetResults = Inr entries"
    and fl: "flatten_datasets entries [] = Inr results"
    by (cases "get_prop doc ''dataset_results''")
      (auto simp: flattenDatasetResults_def split: if_splits sum.splits dest: truthy_Some)
  from flatten_datasets_emitted [OF fl] assms(2) obtain k v rl e where
    kv: "(k, v) \<in> set entries" "get_prop v ''results'' = Inr (Some (JArr rl))" "e \<in> set rl"
    "flatten_entry (normalizeDatasetKey k) e = Inr (Some cr)"
    by auto
  from flatten_entry_Some [OF kv(4)] dr en kv(1,2,3) show ?thesis
    by blast
qed

theorem flattenDatasetResults_records_witness:
  "flattenDatasetResults
     (JObj [(''dataset_results'',
        JObj [(''datasets/cais__mmlu/'',
          JObj [(''results'',
            JArr [JObj [(''file'', JStr ''data/anatomy_test.csv''),
                        (''accuracy_mean'', JNum 1.5)],
                  JObj [(''file'', JStr ''data/virology_test.csv'')],
                  JObj [(''file'', JStr ''data/astronomy.json''),
                        (''accuracy_mean'', JNum (- 0.25)),
                        (''accuracy_std'', JNum 0.125)]])])])])
   = Inr [\<lparr>category = ''mmlu/anatomy'', file_name = ''data/anatomy_test.csv'',
           accuracy_mean = 1.5, accuracy_std = None\<rparr>,
          \<lparr>category = ''mmlu/astronomy'', file_name = ''data/astronomy.json'',
           accuracy_mean = - 0.25, accuracy_std = Some (JNum 0.125)\<rparr>]
   \<and> (\<exists>datasetKey f a.
         ''mmlu/anatomy'' = normalizeDatasetKey datasetKey @ ''/''
             @ legacy_override (normalizeDatasetKey datasetKey) (extractCategory f)
         \<and> (1.5 :: real) = a)"
proof -
  let ?doc = "JObj [(''dataset_results'',
        JObj [(''datasets/cais__mmlu/'',
          JObj [(''results'',
            JArr [JObj [(''file'', JStr ''data/anatomy_test.csv''),
                        (''accuracy_mean'', JNum 1.5)],
                  JObj [(''file'', JStr ''data/virology_test.csv'')],
                  JObj [(''file'', JStr ''data/astronomy.json''),
                        (''accuracy_mean'', JNum (- 0.25)),
                        (''accuracy_std'', JNum 0.125)]])])])]"
  let ?r1 = "\<lparr>category = ''mmlu/anatomy'', file_name = ''data/anatomy_test.csv'',
           accuracy_mean = 1.5, accuracy_std = None\<rparr>"
  let ?r2 = "\<lparr>category = ''mmlu/astronomy'', file_name = ''data/astronomy.json'',
           accuracy_mean = - 0.25, accuracy_std = Some (JNum 0.125)\<rparr>"
  have n: "normalizeDatasetKey ''datasets/cais__mmlu/'' = ''mmlu''"
    by (simp add: normalizeDatasetKey_def js_split_def js_pop_def or_else_def slash_def)
  have x1: "extractCategory ''data/anatomy_test.csv'' = ''anatomy''"
    by (simp add: extractCategory_def js_split_def js_pop_def or_else_def
        test_ext_alts_def ext_alts_def)
  have x2: "extractCategory ''data/astronomy.json'' = ''astronomy''"
    by (simp add: extractCategory_def js_split_def js_pop_def or_else_def
        test_ext_alts_def ext_alts_def)
  have d: "flattenDatasetResults ?doc = Inr [?r1, ?r2]"
    by (simp add: flattenDatasetResults_def flatten_entry_def legacy_override_def n x1 x2)
  have m: "?r1 \<in> set [?r1, ?r2]"
    by simp
  from flattenDatasetResults_records [OF d m] have
    "\<exists>datasetKey f a.
         ''mmlu/anatomy'' = normalizeDatasetKey datasetKey @ ''/''
             @ legacy_override (normalizeDatasetKey datasetKey) (extractCategory f)
         \<and> (1.5 :: real) = a"
    by simp blast
  with d show ?thesis
    by blast
qed

section \<open>Category grouper\<close>

lemma map_of_group_push:
  "map_of (group_push r g) c =
     (if c = categorizeTest (category r)
      then Some ((case map_of g c of Some b \<Rightarrow> b | None \<Rightarrow> []) @ [r])
      else map_of g c)"
  by (simp add: group_push_def Let_def update_conv' split: option.splits)

lemma distinct_group_push:
  "distinct (map fst g) \<Longrightarrow> distinct (map fst (group_push r g))"
  by (simp add: group_push_def Let_def distinct_update)

lemma concat_update_new:
  "map_of g k = None \<Longrightarrow> concat (map snd (AList.update k [] g)) = concat (map snd g)"
  by (induction g) (auto split: if_splits)

lemma mset_concat_update_append:
  "map_of g k = Some b
   \<Longrightarrow> mset (concat (map snd (AList.update k (b @ [r]) g)))
       = mset (concat (map snd g)) + {#r#}"
  by (induction g) (auto split: if_splits)

lemma mset_concat_group_push:
  "mset (concat (map snd (group_push r g))) = mset (concat (map snd g)) + {#r#}"
proof (cases "map_of g (categorizeTest (category r))")
  case None
  let ?c = "categorizeTest (category r)"
  have "map_of (AList.update ?c [] g) ?c = Some []"
    by (simp add: update_conv')
  from mset_concat_update_append [OF this, of r] None show ?thesis
    by (simp add: group_push_def Let_def concat_update_new update_conv')
next
  case (Some b)
  from mset_concat_update_append [OF this, of r] Some show ?thesis
    by (simp add: group_push_def Let_def)
qed

lemma map_of_groupByCategory_loop:
  "map_of (groupByCategory_loop rs g) c =
     (case map_of g c of
        None \<Rightarrow> (if filter (\<lambda>r. categorizeTest (category r) = c) rs = [] then None
                 else Some (filter (\<lambda>r. categorizeTest (category r) = c) rs))
      | Some b \<Rightarrow> Some (b @ filter (\<lambda>r. categorizeTest (category r) = c) rs))"
  by (induction rs arbitrary: g) (auto simp: map_of_group_push split: option.splits)

lemma distinct_groupByCategory_loop:
  "distinct (map fst g) \<Longrightarrow> distinct (map fst (groupByCategory_loop rs g))"
  by (induction rs arbitrary: g) (auto simp: distinct_group_push)

lemma mset_groupByCategory_loop:
  "mset (concat (map snd (groupByCategory_loop rs g)))
   = mset (concat (map snd g)) + mset rs"
  by (induction rs arbitrary: g) (auto simp: mset_concat_group_push)

text \<open>
  C9: the grouper partitions its input. The bucket of a key holds exactly the results
  whose category path is classified under that key, in input order and with repetitions
  kept (a key without results has no bucket); each key occurs once; and the buckets
  together are a permutation of the input.
\<close>

theorem groupByCategory_partition:
  "map_of (groupByCategory results) c =
     (if filter (\<lambda>r. categorizeTest (category r) = c) results = [] then None
      else Some (filter (\<lambda>r. categorizeTest (category r) = c) results))
   \<and> distinct (map fst (groupByCategory results))
   \<and> mset (concat (map snd (groupByCategory results))) = mset results"
  by (simp add: groupByCategory_def map_of_groupByCategory_loop
      distinct_groupByCategory_loop mset_groupByCategory_loop)

theorem groupByCategory_partition_witness:
  "map_of (groupByCategory
     [\<lparr>category = ''mmlu/abstract_algebra'', file_name = ''abstract_algebra_test.csv'',
       accuracy_mean = 0.5, accuracy_std = None\<rparr>,
      \<lparr>category = ''mmlu/anatomy'', file_name = ''anatomy_test.csv'',
       accuracy_mean = 0.25, accuracy_std = None\<rparr>,
      \<lparr>category = ''mmlu/abstract_algebra'', file_name = ''abstract_algebra_test.csv'',
       accuracy_mean = 0.5, accuracy_std = None\<rparr>]) mathematics
   = Some [\<lparr>category = ''mmlu/abstract_algebra'', file_name = ''abstract_algebra_test.csv'',
            accuracy_mean = 0.5, accuracy_std = None\<rparr>,
           \<lparr>category = ''mmlu/abstract_algebra'', file_name = ''abstract_algebra_test.csv'',
            accuracy_mean = 0.5, accuracy_std = None\<rparr>]"
proof -
  have c1: "categorizeTest ''mmlu/abstract_algebra'' = mathematics"
    by (simp add: categorizeTest_def toLowerCase_def lower_char_def)
  have c2: "categorizeTest ''mmlu/anatomy'' = medicineHealth"
    by (simp add: categorizeTest_def toLowerCase_def lower_char_def)
  show ?thesis
    using groupByCategory_partition
      [of "[\<lparr>category = ''mmlu/abstract_algebra'',
              file_name = ''abstract_algebra_test.csv'',
              accuracy_mean = 0.5, accuracy_std = None\<rparr>,
            \<lparr>category = ''mmlu/anatomy'', file_name = ''anatomy_test.csv'',
              accuracy_mean = 0.25, accuracy_std = None\<rparr>,
            \<lparr>category = ''mmlu/abstract_algebra'',
              file_name = ''abstract_algebra_test.csv'',
              accuracy_mean = 0.5, accuracy_std = None\<rparr>]" mathematics]
    by (simp add: c1 c2)
qed

section \<open>Last write wins\<close>


section \<open>Pivot builder\<close>


lemma set_update_cases:
  "x \<in> set (AList.update k v al) \<Longrightarrow> x = (k, v) \<or> x \<in> set al"
  by (induction al) (auto split: if_splits)

lemma pivot_inv_set: "pivot_inv m \<Longrightarrow> pivot_inv (pivot_set L r m)"
proof -
  assume inv: "pivot_inv m"
  let ?c = "category r"
  let ?fresh = "\<lparr>row_category = ?c, cells = []\<rparr>"
  let ?m1 = "case map_of m ?c of None \<Rightarrow> AList.update ?c ?fresh m | Some row \<Rightarrow> m"
  have inv1: "pivot_inv ?m1"
    using inv by (auto simp: pivot_inv_def distinct_update dest!: set_update_cases
        split: option.splits)
  let ?row = "case map_of ?m1 ?c of Some r \<Rightarrow> r | None \<Rightarrow> ?fresh"
  have row: "row_category ?row = ?c \<and> distinct (map fst (cells ?row))"
  proof (cases "map_of ?m1 ?c")
    case None
    then show ?thesis by simp
  next
    case (Some x)
    then have "(?c, x) \<in> set ?m1"
      by (rule map_of_SomeD)
    with inv1 Some show ?thesis
      by (auto simp: pivot_inv_def)
  qed
  have "pivot_set L r m
        = AList.update ?c (?row\<lparr>cells := AList.update L (accuracy_mean r) (cells ?row)\<rparr>) ?m1"
    by (simp add: pivot_set_def Let_def)
  with inv1 row show ?thesis
    by (auto simp: pivot_inv_def distinct_update dest!: set_update_cases)
qed

lemma pivot_inv_fold: "pivot_inv m \<Longrightarrow> pivot_inv (fold (pivot_set L) rs m)"
  by (induction rs arbitrary: m) (auto simp: pivot_inv_set)












section \<open>Ranking aggregator\<close>


lemma map_of_absent: "map_of al k = None \<Longrightarrow> k \<notin> fst ` set al"
  by (simp add: map_of_eq_None_iff)





















lemma map_of_member: "distinct (map fst al) \<Longrightarrow> (k, v) \<in> set al \<Longrightarrow> map_of al k = Some v"
  by simp




section \<open>Category dashboard\<close>



























section \<open>When the flattener throws\<close>

text \<open>
  The only exception the flattener can raise comes from a \<^verbatim>\<open>null\<close> entry in a
  \<^verbatim>\<open>results\<close> array of a dataset value that is an object.
\<close>

lemma flatten_entry_throws: "flatten_entry nd e = Inl err \<Longrightarrow> e = JNull"
  by (cases e) (auto simp: flatten_entry_def split: option.splits json.splits)

lemma flatten_results_throws: "flatten_results nd rl acc = Inl err \<Longrightarrow> JNull \<in> set rl"
proof (induction rl arbitrary: acc)
  case Nil
  then show ?case by simp
next
  case (Cons r rl)
  show ?case
  proof (cases "flatten_entry nd r")
    case (Inl e)
    from flatten_entry_throws [OF this] show ?thesis
      by simp
  next
    case (Inr res)
    with Cons show ?thesis
      by (cases res) auto
  qed
qed

lemma flatten_datasets_Cons_throws:
  "flatten_datasets ((k, v) # rest) acc = Inl err
   \<Longrightarrow> flatten_datasets rest acc = Inl err
     \<or> (\<exists>rl. get_prop v ''results'' = Inr (Some (JArr rl))
           \<and> (flatten_results (normalizeDatasetKey k) rl acc = Inl err
               \<or> (\<exists>mid. flatten_results (normalizeDatasetKey k) rl acc = Inr mid
                      \<and> flatten_datasets rest mid = Inl err)))"
proof (cases "is_object v")
  case False
  assume "flatten_datasets ((k, v) # rest) acc = Inl err"
  with False show ?thesis by simp
next
  case True
  assume a: "flatten_datasets ((k, v) # rest) acc = Inl err"
  show ?thesis
  proof (cases "get_prop v ''results''")
    case (Inl e)
    with True show ?thesis by (cases v) simp_all
  next
    case (Inr r)
    show ?thesis
    proof (cases r)
      case None
      with a True Inr show ?thesis by simp
    next
      case (Some j)
      with a True Inr show ?thesis
        by (cases j) (simp_all split: sum.splits)
    qed
  qed
qed

lemma flatten_datasets_throws:
  "flatten_datasets entries acc = Inl err
   \<Longrightarrow> \<exists>k v rl. (k, v) \<in> set entries \<and> get_prop v ''results'' = Inr (Some (JArr rl))
         \<and> JNull \<in> set rl"
proof (induction entries arbitrary: acc)
  case Nil
  then show ?case by simp
next
  case (Cons entry rest)
  obtain k v where entry: "entry = (k, v)"
    by (cases entry)
  from Cons.prems have "flatten_datasets ((k, v) # rest) acc = Inl err"
    by (simp only: entry)
  from flatten_datasets_Cons_throws [OF this]
  consider (later) acc' where "flatten_datasets rest acc' = Inl err"
    | (here) rl where "get_prop v ''results'' = Inr (Some (JArr rl))"
        "flatten_results (normalizeDatasetKey k) rl acc = Inl err"
    by blast
  then show ?case
  proof cases
    case later
    from Cons.IH [OF later] show ?thesis
      by auto
  next
    case here
    from flatten_results_throws [OF here(2)] here(1) show ?thesis
      unfolding entry by auto
  qed
qed

lemma flattenDatasetResults_throws_only_on_null_entry:
  assumes "flattenDatasetResults doc = Inl err"
  shows "\<exists>datasetResults entries k v rl.
           get_prop doc ''dataset_results'' = Inr (Some datasetResults)
         \<and> object_entries datasetResults = Inr entries
         \<and> (k, v) \<in> set entries
         \<and> get_prop v ''results'' = Inr (Some (JArr rl))
         \<and> JNull \<in> set rl"
proof -
  have obj: "is_object doc"
    using assms by (auto simp: flattenDatasetResults_def split: if_splits)
  then obtain p where p: "get_prop doc ''dataset_results'' = Inr p"
    by (cases doc) auto
  with assms obj have t: "truthy p"
    by (auto simp: flattenDatasetResults_def split: if_splits)
  then obtain dr where dr: "p = Some dr"
    using truthy_Some by blast
  with t obtain entries where en: "object_entries dr = Inr entries"
    by (cases dr) auto
  with assms obj p t dr have "flatten_datasets entries [] = Inl err"
    by (simp add: flattenDatasetResults_def)
  from flatten_datasets_throws [OF this] p dr en show ?thesis
    by blast
qed

end
